theory Spec2Isabelle
  imports Main
begin

section \<open>Strings of the host language\<close>

text \<open>
  The application is a React component (\<^verbatim>\<open>src/App.tsx\<close>). Its strings are modelled as
  \<^typ>\<open>string\<close>, one \<^typ>\<open>char\<close> per code unit, which covers the code points below 256
  (ASCII and Latin-1). The string primitives of the host that the component calls are
  written out on that range.
\<close>

definition upper_letters :: string where
  "upper_letters = ''ABCDEFGHIJKLMNOPQRSTUVWXYZ'' @
     [CHR 0xC0, CHR 0xC1, CHR 0xC2, CHR 0xC3, CHR 0xC4, CHR 0xC5, CHR 0xC6, CHR 0xC7,
      CHR 0xC8, CHR 0xC9, CHR 0xCA, CHR 0xCB, CHR 0xCC, CHR 0xCD, CHR 0xCE, CHR 0xCF,
      CHR 0xD0, CHR 0xD1, CHR 0xD2, CHR 0xD3, CHR 0xD4, CHR 0xD5, CHR 0xD6,
      CHR 0xD8, CHR 0xD9, CHR 0xDA, CHR 0xDB, CHR 0xDC, CHR 0xDD, CHR 0xDE]"

definition lower_letters :: string where
  "lower_letters = ''abcdefghijklmnopqrstuvwxyz'' @
     [CHR 0xE0, CHR 0xE1, CHR 0xE2, CHR 0xE3, CHR 0xE4, CHR 0xE5, CHR 0xE6, CHR 0xE7,
      CHR 0xE8, CHR 0xE9, CHR 0xEA, CHR 0xEB, CHR 0xEC, CHR 0xED, CHR 0xEE, CHR 0xEF,
      CHR 0xF0, CHR 0xF1, CHR 0xF2, CHR 0xF3, CHR 0xF4, CHR 0xF5, CHR 0xF6,
      CHR 0xF8, CHR 0xF9, CHR 0xFA, CHR 0xFB, CHR 0xFC, CHR 0xFD, CHR 0xFE]"

text \<open>\<^verbatim>\<open>String.prototype.toLowerCase\<close>: the upper-case letters of the range go to their
  lower-case partners, every other character stays.\<close>

definition toLowerCase_char :: "char \<Rightarrow> char" where
  "toLowerCase_char c =
     (case map_of (zip upper_letters lower_letters) c of Some l \<Rightarrow> l | None \<Rightarrow> c)"

definition toLowerCase :: "string \<Rightarrow> string" where
  "toLowerCase s = map toLowerCase_char s"

text \<open>The case folding of a regular expression with the \<^verbatim>\<open>i\<close> flag (and no \<^verbatim>\<open>u\<close> flag):
  characters are compared after mapping to upper case. Without the flag they are compared
  as they are. The lower-case letters of the range whose upper-case form lies outside it
  or is longer than one character fold to something no other character of the range folds
  to; they stay.\<close>

definition canonicalize :: "bool \<Rightarrow> char \<Rightarrow> char" where
  "canonicalize ignoreCase c =
     (if ignoreCase
      then (case map_of (zip lower_letters upper_letters) c of Some u \<Rightarrow> u | None \<Rightarrow> c)
      else c)"

text \<open>White space and line terminators, as \<^verbatim>\<open>String.prototype.trim\<close> removes them: TAB, LF,
  VT, FF, CR, SPACE and NO-BREAK SPACE.\<close>

definition is_white_space :: "char \<Rightarrow> bool" where
  "is_white_space c =
     (c \<in> set [CHR 0x09, CHR 0x0A, CHR 0x0B, CHR 0x0C, CHR 0x0D, CHR 0x20, CHR 0xA0])"

definition trim :: "string \<Rightarrow> string" where
  "trim s = rev (dropWhile is_white_space (rev (dropWhile is_white_space s)))"

text \<open>\<^verbatim>\<open>String.prototype.includes\<close>: the search string occurs at some position.\<close>

definition startsWith :: "string \<Rightarrow> string \<Rightarrow> bool" where
  "startsWith s k = (take (length k) s = k)"

fun includes_str :: "string \<Rightarrow> string \<Rightarrow> bool" where
  "includes_str [] k = (k = [])"
| "includes_str (c # cs) k = (startsWith (c # cs) k \<or> includes_str cs k)"

text \<open>The word characters of a regular expression, \<^verbatim>\<open>\w\<close>, and the assertion \<^verbatim>\<open>\b\<close> at
  position \<open>i\<close> of \<open>s\<close>: exactly one of the characters before and after the position is
  a word character (a missing character is none).\<close>

definition is_word_char :: "char \<Rightarrow> bool" where
  "is_word_char c =
     (c \<in> set ''abcdefghijklmnopqrstuvwxyzABCDEFGHIJKLMNOPQRSTUVWXYZ0123456789_'')"

definition word_boundary :: "string \<Rightarrow> nat \<Rightarrow> bool" where
  "word_boundary s i =
     ((0 < i \<and> i \<le> length s \<and> is_word_char (s ! (i - 1)))
        \<noteq> (i < length s \<and> is_word_char (s ! i)))"

section \<open>The intent classifier\<close>

text \<open>
  \<^verbatim>\<open>const IMAGE_KEYWORDS = ['image','generate','create','draw','paint','photo','render',
                          'illustrate','picture','design'];\<close>
\<close>

definition IMAGE_KEYWORDS :: "string list" where
  "IMAGE_KEYWORDS = [''image'', ''generate'', ''create'', ''draw'', ''paint'', ''photo'',
     ''render'', ''illustrate'', ''picture'', ''design'']"

text \<open>
  The regular expression \<^verbatim>\<open>/^\/image\b|^\/img\b|^\/photo\b/\<close> is used twice: without flags
  by \<^verbatim>\<open>detectImageIntent\<close> and with the flags \<^verbatim>\<open>ig\<close> by \<^verbatim>\<open>generateImageFlow\<close>. Each
  alternative is anchored at the start of the input, spells one token and ends with the
  assertion \<^verbatim>\<open>\b\<close>. \<open>alternative_matches\<close> is one alternative, \<open>command_regex\<close> tries
  them from left to right and gives the length of the match.
\<close>

definition COMMAND_TOKENS :: "string list" where
  "COMMAND_TOKENS = [''/image'', ''/img'', ''/photo'']"

definition alternative_matches :: "bool \<Rightarrow> string \<Rightarrow> string \<Rightarrow> bool" where
  "alternative_matches ignoreCase s tok =
     (length tok \<le> length s
      \<and> map (canonicalize ignoreCase) (take (length tok) s) = map (canonicalize ignoreCase) tok
      \<and> word_boundary s (length tok))"

definition command_regex :: "bool \<Rightarrow> string \<Rightarrow> nat option" where
  "command_regex ignoreCase s =
     map_option length (find (alternative_matches ignoreCase s) COMMAND_TOKENS)"

text \<open>
  \<^verbatim>\<open>function detectImageIntent(text: string): boolean {
    const t = text.toLowerCase();
    return IMAGE_KEYWORDS.some(k => t.includes(k)) || /^\/image\b|^\/img\b|^\/photo\b/.test(t);
  }\<close>
\<close>

definition detectImageIntent :: "string \<Rightarrow> bool" where
  "detectImageIntent txt =
     (let t = toLowerCase txt
      in list_ex (\<lambda>k. includes_str t k) IMAGE_KEYWORDS \<or> command_regex False t \<noteq> None)"

text \<open>
  \<^verbatim>\<open>const cleaned = prompt.replace(/^\/image\b|^\/img\b|^\/photo\b/ig, '').trim();
  const bodyPrompt = cleaned || prompt;\<close>

  Every alternative is anchored, so the global flag finds at most the one match at
  position 0; an empty \<open>cleaned\<close> is falsy.
\<close>

definition strip_command :: "string \<Rightarrow> string" where
  "strip_command prompt =
     (case command_regex True prompt of None \<Rightarrow> prompt | Some n \<Rightarrow> drop n prompt)"

definition bodyPrompt :: "string \<Rightarrow> string" where
  "bodyPrompt prompt =
     (let cleaned = trim (strip_command prompt)
      in if cleaned = [] then prompt else cleaned)"

section \<open>Messages and the component state\<close>

text \<open>
  \<^verbatim>\<open>interface Message { id: string; from: 'user' | 'assistant'; text: string;
                      image?: string; ts?: number; }\<close>
\<close>

datatype sender = User | Assistant

record message =
  id_m :: string
  from_m :: sender
  text_m :: string
  image_m :: "string option"
  ts_m :: "nat option"

text \<open>A thrown value: an \<^verbatim>\<open>Error\<close> object with its name and message, which is what the
  provider's client rejects with and what \<^verbatim>\<open>new Error(...)\<close> builds.\<close>

datatype js_error = JsError (name_e: string) (message_e: string)

text \<open>\<^verbatim>\<open>Error.prototype.toString\<close>, and the expression \<^verbatim>\<open>err.message || String(err)\<close> of both
  \<^verbatim>\<open>catch\<close> blocks (an empty message is falsy).\<close>

definition String_e :: "js_error \<Rightarrow> string" where
  "String_e err =
     (if name_e err = [] then message_e err
      else if message_e err = [] then name_e err
      else name_e err @ '': '' @ message_e err)"

definition error_detail :: "js_error \<Rightarrow> string" where
  "error_detail err = (if message_e err \<noteq> [] then message_e err else String_e err)"

text \<open>The response of the image capability, as far as the flow reads it:
  \<^verbatim>\<open>response.candidates?.[0]?.content?.parts?.[0]\<close> and then \<^verbatim>\<open>part?.inlineData\<close>.\<close>

record inline_data =
  mimeType :: string
  data :: string

record part =
  inlineData :: "inline_data option"

record content =
  parts :: "part list option"

record candidate =
  content :: "content option"

record response =
  candidates :: "candidate list option"

definition first_elem :: "'a list \<Rightarrow> 'a option" where
  "first_elem xs = (case xs of [] \<Rightarrow> None | x # _ \<Rightarrow> Some x)"

definition first_part :: "response \<Rightarrow> part option" where
  "first_part r =
     Option.bind (Option.bind (Option.bind (Option.bind (candidates r) first_elem) content)
       parts) first_elem"

definition inline_of :: "response \<Rightarrow> inline_data option" where
  "inline_of r = Option.bind (first_part r) inlineData"

text \<open>The calls that leave the component.\<close>

datatype call = SendMessageStream string | GenerateContent string

text \<open>
  The state of the component: its \<^verbatim>\<open>useState\<close> slots, whether \<^verbatim>\<open>chatRef.current\<close> holds a
  session, the handles of the interval timers that run, the delays of the pending
  one-shot timers that reset the progress value, and the entry of the local storage
  under \<^verbatim>\<open>STORAGE_KEY\<close>. State updates of one handler are applied in the order they are
  queued.
\<close>

record app =
  messages :: "message list"
  input :: string
  isThinking :: bool
  isGenerating :: bool
  lastError :: "string option"
  progress :: nat
  chatRef :: bool
  intervals :: "nat list"
  timeouts :: "nat list"
  storage :: "string option"

text \<open>
  What one run of a handler takes from outside: the results of its calls of \<^verbatim>\<open>genId()\<close>
  and \<^verbatim>\<open>Date.now()\<close> (the first pair for the user message, the second for the
  assistant's), the fragments the chat stream delivers (the \<^verbatim>\<open>text\<close> of its chunks) and
  the error it ends with, if any, the outcome of the image request (\<open>Inl\<close> a rejection), the handle
  \<^verbatim>\<open>setInterval\<close> returns and the values the interval's callback passes to
  \<^verbatim>\<open>setProgress\<close> while the image request is in flight.
\<close>

record world =
  userId :: string
  userTs :: nat
  replyId :: string
  replyTs :: nat
  stream :: "string list \<times> js_error option"
  generated :: "js_error + response"
  timer :: nat
  ticks :: "nat list"

section \<open>The message log\<close>

definition welcome_message :: "string \<Rightarrow> message" where
  "welcome_message gid = \<lparr>id_m = gid, from_m = Assistant,
     text_m = ''FRIDAY online. Secure channel active.'', image_m = None, ts_m = None\<rparr>"

text \<open>
  \<^verbatim>\<open>const loadHistory = (): Message[] => {
    try {
      const r = localStorage.getItem(STORAGE_KEY);
      if (!r) return [{id:genId(), from:'assistant', text:'FRIDAY online. Secure channel active.'}];
      return JSON.parse(r);
    } catch(e) {
      return [{id:genId(), from:'assistant', text:'FRIDAY online. Secure channel active.'}];
    }
  };\<close>

  \<^verbatim>\<open>JSON.parse\<close> is the host's: it is the parameter \<open>parse\<close>, \<open>None\<close> when it throws, and its
  value is taken at the type the signature declares. The empty string is falsy.
\<close>

definition loadHistory ::
  "(string \<Rightarrow> message list option) \<Rightarrow> string \<Rightarrow> string option \<Rightarrow> message list" where
  "loadHistory parse gid stored =
     (case stored of
        None \<Rightarrow> [welcome_message gid]
      | Some r \<Rightarrow>
          if r = [] then [welcome_message gid]
          else (case parse r of None \<Rightarrow> [welcome_message gid] | Some v \<Rightarrow> v))"

text \<open>The component when it is mounted: \<^verbatim>\<open>useState(() => loadHistory())\<close> and the other
  initial values; the mount effect creates the chat session.\<close>

definition App :: "(string \<Rightarrow> message list option) \<Rightarrow> string \<Rightarrow> string option \<Rightarrow> app" where
  "App parse gid stored =
     \<lparr>messages = loadHistory parse gid stored, input = [], isThinking = False,
      isGenerating = False, lastError = None, progress = 0, chatRef = True,
      intervals = [], timeouts = [], storage = stored\<rparr>"

text \<open>The updater of the streaming loop and of its \<^verbatim>\<open>catch\<close> block:
  \<^verbatim>\<open>prev.map(m => m.id === assistantMsgId ? { ...m, text: fullReply } : m)\<close>.\<close>

definition updateById :: "string \<Rightarrow> string \<Rightarrow> message list \<Rightarrow> message list" where
  "updateById aid newText prev =
     map (\<lambda>m. if id_m m = aid then m\<lparr>text_m := newText\<rparr> else m) prev"

text \<open>
  \<^verbatim>\<open>function clearHistory(){ if(!confirm('Clear chat history?'))return;
     const w: Message ={id:genId(),from:'assistant',text:'FRIDAY online. Secure channel active.'};
     setMessages([w]); localStorage.removeItem(STORAGE_KEY); }\<close>
\<close>

definition clearHistory :: "bool \<Rightarrow> string \<Rightarrow> app \<Rightarrow> app" where
  "clearHistory confirmed gid st =
     (if \<not> confirmed then st
      else st\<lparr>messages := [welcome_message gid], storage := None\<rparr>)"

text \<open>The operations on the log: appending a message (\<^verbatim>\<open>setMessages(m => [...m, msg])\<close>),
  updating by id, and the reset of a confirmed \<open>clearHistory\<close>.\<close>

datatype log_op = Append message | UpdateById string string | Reset string

fun apply_op :: "app \<Rightarrow> log_op \<Rightarrow> app" where
  "apply_op st (Append msg) = st\<lparr>messages := messages st @ [msg]\<rparr>"
| "apply_op st (UpdateById aid newText) = st\<lparr>messages := updateById aid newText (messages st)\<rparr>"
| "apply_op st (Reset gid) = clearHistory True gid st"

definition run_ops :: "app \<Rightarrow> log_op list \<Rightarrow> app" where
  "run_ops st ops = foldl apply_op st ops"

section \<open>The image generation flow\<close>

text \<open>\<^verbatim>\<open>clearInterval(fakeTimer)\<close>: the handle stops running; clearing a handle that does
  not run changes nothing.\<close>

definition clearInterval :: "nat \<Rightarrow> app \<Rightarrow> app" where
  "clearInterval h st = st\<lparr>intervals := filter (\<lambda>t. t \<noteq> h) (intervals st)\<rparr>"

text \<open>\<^verbatim>\<open>fakeProgress(p => setProgress(p))\<close> starts the interval timer and returns its
  handle; while the request is awaited the timer's callback sets the progress value.\<close>

definition fakeProgress :: "nat \<Rightarrow> app \<Rightarrow> app" where
  "fakeProgress h st = st\<lparr>intervals := intervals st @ [h]\<rparr>"

definition in_flight :: "nat list \<Rightarrow> app \<Rightarrow> app" where
  "in_flight ps st = foldl (\<lambda>s p. s\<lparr>progress := p\<rparr>) st ps"

text \<open>
  The \<^verbatim>\<open>catch\<close> block of the flow:

  \<^verbatim>\<open>clearInterval(fakeTimer);
  console.error(err);
  setMessages(m => [...m, { id: genId(), from: 'assistant', text: 'Image generation failed.' }]);
  setLastError(err.message || String(err));\<close>
\<close>

definition image_failed :: "world \<Rightarrow> js_error \<Rightarrow> app \<Rightarrow> app" where
  "image_failed w err st =
     (let st1 = clearInterval (timer w) st;
          st2 = st1\<lparr>messages := messages st1 @
                  [\<lparr>id_m = replyId w, from_m = Assistant, text_m = ''Image generation failed.'',
                    image_m = None, ts_m = None\<rparr>]\<rparr>
      in st2\<lparr>lastError := Some (error_detail err)\<rparr>)"

text \<open>The error the flow throws itself when the response carries no inline data.\<close>

definition no_image_data :: js_error where
  "no_image_data = JsError ''Error''
     ''No image data was returned. The prompt may have been blocked for safety reasons.''"

text \<open>
  The part of the \<^verbatim>\<open>try\<close> block after the response has arrived:

  \<^verbatim>\<open>clearInterval(fakeTimer);
  setProgress(80);
  const part = response.candidates?.[0]?.content?.parts?.[0];
  if (part?.inlineData) {
      const base64ImageBytes = part.inlineData.data;
      const imageUrl = `data:${part.inlineData.mimeType};base64,${base64ImageBytes}`;
      setMessages(m => [...m, { id: genId(), from: 'assistant',
          text: `Generated image: "${bodyPrompt}"`, image: imageUrl, ts: Date.now() }]);
      setProgress(100);
  } else {
      ...
      throw new Error("No image data was returned. The prompt may have been blocked for safety reasons.");
  }\<close>
\<close>

definition image_received :: "world \<Rightarrow> string \<Rightarrow> response \<Rightarrow> app \<Rightarrow> app" where
  "image_received w body resp st =
     (let st1 = clearInterval (timer w) st;
          st2 = st1\<lparr>progress := 80\<rparr>
      in case inline_of resp of
           Some d \<Rightarrow>
             (let imageUrl = ''data:'' @ mimeType d @ '';base64,'' @ data d;
                  st3 = st2\<lparr>messages := messages st2 @
                          [\<lparr>id_m = replyId w, from_m = Assistant,
                            text_m = ''Generated image: '' @ [CHR 0x22] @ body @ [CHR 0x22],
                            image_m = Some imageUrl, ts_m = Some (replyTs w)\<rparr>]\<rparr>
              in st3\<lparr>progress := 100\<rparr>)
         | None \<Rightarrow> image_failed w no_image_data st2)"

text \<open>
  \<^verbatim>\<open>async function generateImageFlow(prompt: string) {
    setIsGenerating(true);
    setLastError(null);
    const fakeTimer = fakeProgress(p => setProgress(p));
    setProgress(6);
    try {
      const cleaned = ...; const bodyPrompt = cleaned || prompt;
      const response = await ai.models.generateContent({ ... parts: [{ text: bodyPrompt }] ... });
      ...
    } catch (err: any) {
      ...
    } finally {
      setIsGenerating(false);
      setTimeout(() => setProgress(0), 900);
    }
  }\<close>

  The result is the state when the flow returns, with the request it issued;
  \<open>image_requested\<close> is the state in which the request is issued.
\<close>

definition image_requested :: "world \<Rightarrow> app \<Rightarrow> app" where
  "image_requested w st =
     (let st1 = st\<lparr>isGenerating := True, lastError := None\<rparr>;
          st2 = fakeProgress (timer w) st1
      in st2\<lparr>progress := 6\<rparr>)"

definition generateImageFlow :: "world \<Rightarrow> string \<Rightarrow> app \<Rightarrow> app \<times> call list" where
  "generateImageFlow w prompt st =
     (let st3 = image_requested w st;
          body = bodyPrompt prompt;
          st4 = in_flight (ticks w) st3;
          st5 = (case generated w of
                   Inl err \<Rightarrow> image_failed w err st4
                 | Inr resp \<Rightarrow> image_received w body resp st4)
      in (st5\<lparr>isGenerating := False, timeouts := timeouts st5 @ [900]\<rparr>,
          [GenerateContent body]))"

text \<open>The callback of that one-shot timer, when it fires.\<close>

definition progress_timeout :: "app \<Rightarrow> app" where
  "progress_timeout st = st\<lparr>progress := 0, timeouts := tl (timeouts st)\<rparr>"

section \<open>Sending\<close>

text \<open>
  The streaming loop:

  \<^verbatim>\<open>let fullReply = "";
  for await (const chunk of stream) {
    fullReply += chunk.text;
    setMessages(prev => prev.map(m => m.id === assistantMsgId ? { ...m, text: fullReply } : m));
  }\<close>

  \<open>stream_loop\<close> gives the log after every iteration, in order.
\<close>

fun stream_loop :: "string \<Rightarrow> string list \<Rightarrow> string \<Rightarrow> message list \<Rightarrow> message list list" where
  "stream_loop aid [] fullReply prev = []"
| "stream_loop aid (chunk # rest) fullReply prev =
     (let fullReply' = fullReply @ chunk;
          log = updateById aid fullReply' prev
      in log # stream_loop aid rest fullReply' log)"

text \<open>
  The text chat of \<^verbatim>\<open>handleSend\<close>, from \<^verbatim>\<open>setIsThinking(true)\<close> on:

  \<^verbatim>\<open>setIsThinking(true);
  const assistantMsgId = genId();
  setMessages(m => [...m, { id: assistantMsgId, from: 'assistant', text: '' }]);
  try {
    const stream = await chatRef.current.sendMessageStream({ message: text });
    ... the loop ...
  } catch (err: any) {
    console.error(err);
    const errorText = "FRIDAY couldn't reach the AI. " + (err.message || String(err));
    setMessages(prev => prev.map(m => m.id === assistantMsgId ? { ...m, text: errorText } : m));
    setLastError(err.message || String(err));
  } finally {
    setIsThinking(false);
  }\<close>

  An error of the call itself is a stream that delivers nothing and ends with the error.
\<close>

definition pending_reply :: "string \<Rightarrow> message" where
  "pending_reply aid =
     \<lparr>id_m = aid, from_m = Assistant, text_m = [], image_m = None, ts_m = None\<rparr>"

definition errorText :: "js_error \<Rightarrow> string" where
  "errorText err = ''FRIDAY couldn'' @ [CHR 0x27] @ ''t reach the AI. '' @ error_detail err"

definition text_chat :: "world \<Rightarrow> string \<Rightarrow> app \<Rightarrow> app \<times> call list" where
  "text_chat w txt st =
     (let st1 = st\<lparr>isThinking := True\<rparr>;
          assistantMsgId = replyId w;
          st2 = st1\<lparr>messages := messages st1 @ [pending_reply assistantMsgId]\<rparr>;
          logs = stream_loop assistantMsgId (fst (stream w)) [] (messages st2);
          st3 = st2\<lparr>messages := last (messages st2 # logs)\<rparr>;
          st4 = (case snd (stream w) of
                   None \<Rightarrow> st3
                 | Some err \<Rightarrow>
                     st3\<lparr>messages := updateById assistantMsgId (errorText err) (messages st3),
                         lastError := Some (error_detail err)\<rparr>)
      in (st4\<lparr>isThinking := False\<rparr>, [SendMessageStream txt]))"

text \<open>
  \<^verbatim>\<open>async function handleSend(e?: React.FormEvent<HTMLFormElement>) {
    e?.preventDefault();
    const text = input.trim();
    if (!text || !chatRef.current) return;
    setLastError(null);
    const isImage = detectImageIntent(text);
    const userMsg: Message = { id: genId(), from: 'user', text, ts: Date.now() };
    setMessages(m => [...m, userMsg]);
    setInput('');
    if (isImage) {
      await generateImageFlow(text);
      return;
    }
    ... the text chat ...
  }\<close>
\<close>

definition userMsg :: "world \<Rightarrow> string \<Rightarrow> message" where
  "userMsg w txt =
     \<lparr>id_m = userId w, from_m = User, text_m = txt, image_m = None, ts_m = Some (userTs w)\<rparr>"

definition handleSend :: "world \<Rightarrow> app \<Rightarrow> app \<times> call list" where
  "handleSend w st =
     (let txt = trim (input st)
      in if txt = [] \<or> \<not> chatRef st then (st, [])
         else
           (let st1 = st\<lparr>lastError := None\<rparr>;
                isImage = detectImageIntent txt;
                st2 = st1\<lparr>messages := messages st1 @ [userMsg w txt]\<rparr>;
                st3 = st2\<lparr>input := []\<rparr>
            in if isImage then generateImageFlow w txt st3 else text_chat w txt st3))"

text \<open>
  The values the log takes while \<open>handleSend\<close> runs, one for every call of
  \<^verbatim>\<open>setMessages\<close>, in order: for the text chat the log with the empty assistant message,
  the log after every fragment, and the log of the \<^verbatim>\<open>catch\<close> block if the stream fails.
\<close>

definition text_chat_logs :: "world \<Rightarrow> app \<Rightarrow> message list list" where
  "text_chat_logs w st =
     (let assistantMsgId = replyId w;
          log1 = messages st @ [pending_reply assistantMsgId];
          logs = stream_loop assistantMsgId (fst (stream w)) [] log1
      in log1 # logs @
           (case snd (stream w) of
              None \<Rightarrow> []
            | Some err \<Rightarrow> [updateById assistantMsgId (errorText err) (last (log1 # logs))]))"

definition send_logs :: "world \<Rightarrow> app \<Rightarrow> message list list" where
  "send_logs w st =
     (let txt = trim (input st)
      in if txt = [] \<or> \<not> chatRef st then []
         else
           (let log1 = messages st @ [userMsg w txt];
                st3 = st\<lparr>lastError := None, messages := log1, input := []\<rparr>
            in log1 # (if detectImageIntent txt
                       then [messages (fst (generateImageFlow w txt st3))]
                       else text_chat_logs w st3)))"

section \<open>The prompt of the image request, as specified\<close>

text \<open>
  The specification of the flow: a leading command token (\<^verbatim>\<open>/image\<close>, \<^verbatim>\<open>/img\<close> or
  \<^verbatim>\<open>/photo\<close>) is stripped from the prompt and the result is trimmed; if nothing is left,
  the raw prompt is sent. The specification does not say when a prompt has a leading
  command token. It is read here as: the prompt starts with the token, in any letter
  case (the classifier looks for the tokens in the lower-cased input), and the token ends
  there, that is, the prompt ends too or goes on with a character that is not a word
  character. A token followed by white space or by nothing is the plain case of it.
\<close>

definition leading_command :: "string \<Rightarrow> string \<Rightarrow> bool" where
  "leading_command prompt tok =
     (toLowerCase (take (length tok) prompt) = tok
      \<and> (drop (length tok) prompt = [] \<or> \<not> is_word_char (hd (drop (length tok) prompt))))"

definition effective_prompt :: "string \<Rightarrow> string" where
  "effective_prompt prompt =
     (let stripped = (case find (leading_command prompt) COMMAND_TOKENS of
                        None \<Rightarrow> prompt
                      | Some tok \<Rightarrow> drop (length tok) prompt);
          cleaned = trim stripped
      in if cleaned = [] then prompt else cleaned)"

section \<open>Sample inputs\<close>

text \<open>
  A parser to put in the place of \<^verbatim>\<open>JSON.parse\<close> where a concrete one is needed. It
  reads the text of the empty array, with white space around and inside the brackets,
  and rejects every other text; it is only applied to \<^verbatim>\<open>[]\<close> and to texts that are not
  JSON, where \<^verbatim>\<open>JSON.parse\<close> does the same.
\<close>

definition is_json_space :: "char \<Rightarrow> bool" where
  "is_json_space c = (c \<in> set [CHR 0x20, CHR 0x09, CHR 0x0A, CHR 0x0D])"

definition parse_empty_array :: "string \<Rightarrow> message list option" where
  "parse_empty_array s = (if filter (\<lambda>c. \<not> is_json_space c) s = ''[]'' then Some [] else None)"

definition sample_app :: app where
  "sample_app = App parse_empty_array ''w0'' None"

definition sample_world :: world where
  "sample_world = \<lparr>userId = ''u1'', userTs = 1000, replyId = ''a1'', replyTs = 2000,
     stream = ([''Hel'', ''lo''], None), generated = Inr \<lparr>candidates = None\<rparr>,
     timer = 7, ticks = [14, 23]\<rparr>"

section \<open>Updating the log by id\<close>

lemma updateById_absent: "aid \<notin> id_m ` set prev \<Longrightarrow> updateById aid t prev = prev"
  unfolding updateById_def by (induction prev) auto

lemma updateById_append:
  "updateById aid t (xs @ ys) = updateById aid t xs @ updateById aid t ys"
  by (simp add: updateById_def)

text \<open>
  Claim C7. Updating by an id that no message of the log carries returns the log as it
  was. In every case the log keeps its length, a message whose id differs from the given
  one is returned as it was, and a message with the given id changes in its text only:
  ids, senders, images and time stamps of the whole log stay. Applying the same update
  twice is applying it once, and a later update to the same id replaces an earlier one,
  so the update can be repeated while a reply streams in.
\<close>

theorem updateById_frame:
  "(aid \<notin> id_m ` set prev \<longrightarrow> updateById aid t prev = prev)
   \<and> length (updateById aid t prev) = length prev
   \<and> (\<forall>i < length prev.
         updateById aid t prev ! i =
           (if id_m (prev ! i) = aid then (prev ! i)\<lparr>text_m := t\<rparr> else prev ! i))
   \<and> map id_m (updateById aid t prev) = map id_m prev
   \<and> map from_m (updateById aid t prev) = map from_m prev
   \<and> map image_m (updateById aid t prev) = map image_m prev
   \<and> map ts_m (updateById aid t prev) = map ts_m prev
   \<and> updateById aid t (updateById aid t prev) = updateById aid t prev
   \<and> updateById aid t' (updateById aid t prev) = updateById aid t' prev"
proof -
  have a: "aid \<notin> id_m ` set prev \<longrightarrow> updateById aid t prev = prev"
    by (simp add: updateById_absent)
  have b: "length (updateById aid t prev) = length prev"
    by (simp add: updateById_def)
  have c: "\<forall>i < length prev.
         updateById aid t prev ! i =
           (if id_m (prev ! i) = aid then (prev ! i)\<lparr>text_m := t\<rparr> else prev ! i)"
    by (simp add: updateById_def)
  have d: "map id_m (updateById aid t prev) = map id_m prev"
    "map from_m (updateById aid t prev) = map from_m prev"
    "map image_m (updateById aid t prev) = map image_m prev"
    "map ts_m (updateById aid t prev) = map ts_m prev"
    by (simp_all add: updateById_def)
  have e: "updateById aid s (updateById aid t prev) = updateById aid s prev" for s
    by (simp add: updateById_def)
  from a b c d e show ?thesis by simp
qed

theorem updateById_frame_witness:
  "updateById ''zz'' ''new'' [welcome_message ''w0'', pending_reply ''a1'']
     = [welcome_message ''w0'', pending_reply ''a1'']
   \<and> updateById ''a1'' ''Hel'' [welcome_message ''w0'', pending_reply ''a1'']
     = [welcome_message ''w0'', (pending_reply ''a1'')\<lparr>text_m := ''Hel''\<rparr>]
   \<and> updateById ''a1'' ''Hello''
        (updateById ''a1'' ''Hel'' [welcome_message ''w0'', pending_reply ''a1''])
     = [welcome_message ''w0'', (pending_reply ''a1'')\<lparr>text_m := ''Hello''\<rparr>]"
  using updateById_frame [of "''zz''" "[welcome_message ''w0'', pending_reply ''a1'']" "''new''" "''x''"]
    updateById_frame [of "''a1''" "[welcome_message ''w0'', pending_reply ''a1'']" "''Hel''" "''Hello''"]
  by (simp add: updateById_def welcome_message_def pending_reply_def)

section \<open>Submitting a blank input\<close>

text \<open>
  Claim C10. When the composer input trims to the empty string, \<open>handleSend\<close> returns the
  state it was given and issues no call: no message is appended, and the log, the
  last-error slot and the two in-flight flags are what they were.
\<close>

theorem handleSend_blank_input:
  assumes "trim (input st) = []"
  shows "handleSend w st = (st, [])
    \<and> messages (fst (handleSend w st)) = messages st
    \<and> lastError (fst (handleSend w st)) = lastError st
    \<and> isThinking (fst (handleSend w st)) = isThinking st
    \<and> isGenerating (fst (handleSend w st)) = isGenerating st
    \<and> snd (handleSend w st) = []"
  using assms by (simp add: handleSend_def)

theorem handleSend_blank_input_witness:
  "trim (input (sample_app\<lparr>input := ''   ''\<rparr>)) = []
   \<and> handleSend sample_world (sample_app\<lparr>input := ''   ''\<rparr>) = (sample_app\<lparr>input := ''   ''\<rparr>, [])"
proof -
  have h: "trim (input (sample_app\<lparr>input := ''   ''\<rparr>)) = []"
    by (simp add: trim_def is_white_space_def)
  from handleSend_blank_input [OF h, of sample_world] h show ?thesis by simp
qed

section \<open>The classifier and the prompt\<close>

lemma startsWith_iff: "startsWith s k \<longleftrightarrow> (\<exists>suf. s = k @ suf)"
  unfolding startsWith_def
  by (metis append_eq_conv_conj append_take_drop_id)

lemma includes_str_iff: "includes_str t k \<longleftrightarrow> (\<exists>pre suf. t = pre @ k @ suf)"
proof (induction t)
  case Nil
  then show ?case by auto
next
  case (Cons c cs)
  show ?case
  proof
    assume "includes_str (c # cs) k"
    then consider "startsWith (c # cs) k" | "includes_str cs k" by auto
    then show "\<exists>pre suf. c # cs = pre @ k @ suf"
    proof cases
      case 1
      then obtain suf where "c # cs = k @ suf" by (auto simp: startsWith_iff)
      then have "c # cs = [] @ k @ suf" by simp
      then show ?thesis by blast
    next
      case 2
      then obtain pre suf where "cs = pre @ k @ suf" using Cons.IH by auto
      then have "c # cs = (c # pre) @ k @ suf" by simp
      then show ?thesis by blast
    qed
  next
    assume "\<exists>pre suf. c # cs = pre @ k @ suf"
    then obtain pre suf where eq: "c # cs = pre @ k @ suf" by blast
    show "includes_str (c # cs) k"
    proof (cases pre)
      case Nil
      with eq have "startsWith (c # cs) k" by (auto simp: startsWith_iff)
      then show ?thesis by simp
    next
      case (Cons p ps)
      with eq have "cs = ps @ k @ suf" by simp
      then have "includes_str cs k" using Cons.IH by blast
      then show ?thesis by simp
    qed
  qed
qed

lemma lower_upper_pairs:
  "list_all2 (\<lambda>l u. toLowerCase_char u = toLowerCase_char l) lower_letters upper_letters"
  by code_simp

lemma upper_lower_pairs:
  "list_all2 (\<lambda>u l. canonicalize True l = canonicalize True u \<and> is_word_char l = is_word_char u)
     upper_letters lower_letters"
  by code_simp

lemma lower_of_canonical: "toLowerCase_char (canonicalize True c) = toLowerCase_char c"
proof (cases "map_of (zip lower_letters upper_letters) c")
  case None
  then show ?thesis by (simp add: canonicalize_def)
next
  case (Some u)
  then have "(c, u) \<in> set (zip lower_letters upper_letters)" by (rule map_of_SomeD)
  with lower_upper_pairs have "toLowerCase_char u = toLowerCase_char c"
    by (auto simp: list_all2_iff)
  with Some show ?thesis by (simp add: canonicalize_def)
qed

lemma canonical_of_lower: "canonicalize True (toLowerCase_char c) = canonicalize True c"
proof (cases "map_of (zip upper_letters lower_letters) c")
  case None
  then show ?thesis by (simp add: toLowerCase_char_def)
next
  case (Some l)
  then have "(c, l) \<in> set (zip upper_letters lower_letters)" by (rule map_of_SomeD)
  with upper_lower_pairs have "canonicalize True l = canonicalize True c"
    by (auto simp: list_all2_iff)
  with Some show ?thesis by (simp add: toLowerCase_char_def)
qed

lemma word_char_of_lower: "is_word_char (toLowerCase_char c) = is_word_char c"
proof (cases "map_of (zip upper_letters lower_letters) c")
  case None
  then show ?thesis by (simp add: toLowerCase_char_def)
next
  case (Some l)
  then have "(c, l) \<in> set (zip upper_letters lower_letters)" by (rule map_of_SomeD)
  with upper_lower_pairs have "is_word_char l = is_word_char c"
    by (auto simp: list_all2_iff)
  with Some show ?thesis by (simp add: toLowerCase_char_def)
qed

lemma canonicalize_eq_iff:
  "canonicalize True c = canonicalize True d \<longleftrightarrow> toLowerCase_char c = toLowerCase_char d"
  by (metis lower_of_canonical canonical_of_lower)

lemma map_canonicalize_eq_iff:
  "map (canonicalize True) xs = map (canonicalize True) ys \<longleftrightarrow> toLowerCase xs = toLowerCase ys"
  unfolding toLowerCase_def
proof (induction xs arbitrary: ys)
  case Nil
  then show ?case by auto
next
  case (Cons x xs)
  then show ?case by (cases ys) (auto simp: canonicalize_eq_iff)
qed


lemma word_boundary_after:
  assumes "n \<le> length s" and "0 < n" and "is_word_char (s ! (n - 1))"
  shows "word_boundary s n \<longleftrightarrow> (drop n s = [] \<or> \<not> is_word_char (hd (drop n s)))"
proof (cases "n < length s")
  case True
  then have "hd (drop n s) = s ! n" by (simp add: hd_drop_conv_nth)
  with True assms show ?thesis by (simp add: word_boundary_def)
next
  case False
  with assms show ?thesis by (simp add: word_boundary_def)
qed

lemma alternative_matches_iff:
  assumes tok: "tok \<noteq> []" "is_word_char (last tok)" "toLowerCase tok = tok"
  shows "alternative_matches True s tok \<longleftrightarrow> leading_command s tok"
proof -
  let ?n = "length tok"
  have n: "0 < ?n" using tok by simp
  {
    assume eq: "toLowerCase (take ?n s) = tok"
    then have "length (take ?n s) = ?n" by (metis length_map toLowerCase_def)
    then have le: "?n \<le> length s" by simp
    have "toLowerCase_char (s ! (?n - 1)) = tok ! (?n - 1)"
      using eq le n by (metis (no_types, lifting) diff_less length_map less_le_trans
          nth_map nth_take toLowerCase_def zero_less_one)
    then have "toLowerCase_char (s ! (?n - 1)) = last tok"
      using tok by (simp add: last_conv_nth)
    then have "is_word_char (s ! (?n - 1))"
      using tok word_char_of_lower by metis
    note le this
  }
  note facts = this
  show ?thesis
  proof
    assume m: "alternative_matches True s tok"
    then have le: "?n \<le> length s" and wb: "word_boundary s ?n"
      and "map (canonicalize True) (take ?n s) = map (canonicalize True) tok"
      by (simp_all add: alternative_matches_def)
    then have eq: "toLowerCase (take ?n s) = tok"
      using tok by (simp add: map_canonicalize_eq_iff)
    from facts[OF eq] wb n show "leading_command s tok"
      by (simp add: leading_command_def eq word_boundary_after)
  next
    assume "leading_command s tok"
    then have eq: "toLowerCase (take ?n s) = tok"
      and b: "drop ?n s = [] \<or> \<not> is_word_char (hd (drop ?n s))"
      by (simp_all add: leading_command_def)
    from facts[OF eq] have le: "?n \<le> length s" and w: "is_word_char (s ! (?n - 1))" by simp_all
    have "word_boundary s ?n" using word_boundary_after[OF le n w] b by simp
    moreover have "map (canonicalize True) (take ?n s) = map (canonicalize True) tok"
      using eq tok by (simp add: map_canonicalize_eq_iff)
    ultimately show "alternative_matches True s tok"
      using le by (simp add: alternative_matches_def)
  qed
qed

lemma canonicalize_False: "canonicalize False = (\<lambda>c. c)"
  by (rule ext) (simp add: canonicalize_def)

lemma alternative_matches_exact_iff:
  assumes tok: "tok \<noteq> []" "is_word_char (last tok)"
  shows "alternative_matches False s tok \<longleftrightarrow>
    (\<exists>rest. s = tok @ rest \<and> (rest = [] \<or> \<not> is_word_char (hd rest)))"
proof
  assume m: "alternative_matches False s tok"
  then have le: "length tok \<le> length s" and wb: "word_boundary s (length tok)"
    and eq: "take (length tok) s = tok"
    by (simp_all add: alternative_matches_def canonicalize_False)
  have s: "s = tok @ drop (length tok) s" using eq by (metis append_take_drop_id)
  have "s ! (length tok - 1) = last tok"
    using tok eq le by (metis diff_less last_conv_nth length_greater_0_conv nth_take zero_less_one)
  then have "is_word_char (s ! (length tok - 1))" using tok by simp
  with wb le tok have "drop (length tok) s = [] \<or> \<not> is_word_char (hd (drop (length tok) s))"
    by (simp add: word_boundary_after)
  with s show "\<exists>rest. s = tok @ rest \<and> (rest = [] \<or> \<not> is_word_char (hd rest))" by blast
next
  assume "\<exists>rest. s = tok @ rest \<and> (rest = [] \<or> \<not> is_word_char (hd rest))"
  then obtain rest where s: "s = tok @ rest" and b: "rest = [] \<or> \<not> is_word_char (hd rest)"
    by blast
  have le: "length tok \<le> length s" using s by simp
  have "s ! (length tok - 1) = last tok"
    using tok s by (simp add: nth_append last_conv_nth)
  then have w: "is_word_char (s ! (length tok - 1))" using tok by simp
  have "word_boundary s (length tok)"
    using word_boundary_after[OF le _ w] tok b s by simp
  then show "alternative_matches False s tok"
    using s by (simp add: alternative_matches_def canonicalize_False)
qed

lemma command_regex_None_iff:
  "command_regex ic s = None \<longleftrightarrow> (\<forall>tok \<in> set COMMAND_TOKENS. \<not> alternative_matches ic s tok)"
  by (auto simp: command_regex_def find_None_iff)

lemma command_tokens_shape:
  "tok \<in> set COMMAND_TOKENS \<Longrightarrow> tok \<noteq> [] \<and> is_word_char (last tok) \<and> toLowerCase tok = tok"
  by (auto simp: COMMAND_TOKENS_def is_word_char_def toLowerCase_def toLowerCase_char_def
      upper_letters_def lower_letters_def)

text \<open>
  Claim C5. \<open>detectImageIntent\<close> is a function of its input text alone. It holds exactly
  when the lower-cased input contains one of the ten keywords, or begins with one of the
  command tokens \<^verbatim>\<open>/image\<close>, \<^verbatim>\<open>/img\<close>, \<^verbatim>\<open>/photo\<close>, the token ending where the input ends or
  goes on with a character that is not a word character. It holds of \<^verbatim>\<open>draw a cat\<close> and of
  \<^verbatim>\<open>/img sunset\<close>, and not of \<^verbatim>\<open>hello there\<close>.
\<close>

theorem detectImageIntent_classifies:
  "detectImageIntent txt =
     ((\<exists>k \<in> {''image'', ''generate'', ''create'', ''draw'', ''paint'', ''photo'', ''render'',
             ''illustrate'', ''picture'', ''design''}.
         \<exists>pre suf. toLowerCase txt = pre @ k @ suf)
      \<or> (\<exists>tok \<in> {''/image'', ''/img'', ''/photo''}.
         \<exists>rest. toLowerCase txt = tok @ rest \<and> (rest = [] \<or> \<not> is_word_char (hd rest))))
   \<and> detectImageIntent ''draw a cat''
   \<and> \<not> detectImageIntent ''hello there''
   \<and> detectImageIntent ''/img sunset''"
proof -
  have kw: "list_ex (\<lambda>k. includes_str (toLowerCase txt) k) IMAGE_KEYWORDS \<longleftrightarrow>
      (\<exists>k \<in> {''image'', ''generate'', ''create'', ''draw'', ''paint'', ''photo'', ''render'',
             ''illustrate'', ''picture'', ''design''}.
         \<exists>pre suf. toLowerCase txt = pre @ k @ suf)"
    unfolding list_ex_iff includes_str_iff by (simp add: IMAGE_KEYWORDS_def)
  have "command_regex False (toLowerCase txt) \<noteq> None \<longleftrightarrow>
      (\<exists>tok \<in> set COMMAND_TOKENS. alternative_matches False (toLowerCase txt) tok)"
    by (simp add: command_regex_None_iff)
  also have "\<dots> \<longleftrightarrow> (\<exists>tok \<in> set COMMAND_TOKENS.
         \<exists>rest. toLowerCase txt = tok @ rest \<and> (rest = [] \<or> \<not> is_word_char (hd rest)))"
    using command_tokens_shape alternative_matches_exact_iff by (meson)
  also have "\<dots> \<longleftrightarrow> (\<exists>tok \<in> {''/image'', ''/img'', ''/photo''}.
         \<exists>rest. toLowerCase txt = tok @ rest \<and> (rest = [] \<or> \<not> is_word_char (hd rest)))"
    by (simp add: COMMAND_TOKENS_def)
  finally have cmd: "command_regex False (toLowerCase txt) \<noteq> None \<longleftrightarrow>
      (\<exists>tok \<in> {''/image'', ''/img'', ''/photo''}.
         \<exists>rest. toLowerCase txt = tok @ rest \<and> (rest = [] \<or> \<not> is_word_char (hd rest)))" .
  have general: "detectImageIntent txt =
     ((\<exists>k \<in> {''image'', ''generate'', ''create'', ''draw'', ''paint'', ''photo'', ''render'',
             ''illustrate'', ''picture'', ''design''}.
         \<exists>pre suf. toLowerCase txt = pre @ k @ suf)
      \<or> (\<exists>tok \<in> {''/image'', ''/img'', ''/photo''}.
         \<exists>rest. toLowerCase txt = tok @ rest \<and> (rest = [] \<or> \<not> is_word_char (hd rest))))"
    unfolding detectImageIntent_def Let_def kw cmd by (rule refl)
  have e1: "detectImageIntent ''draw a cat''" by code_simp
  have e2: "\<not> detectImageIntent ''hello there''" by code_simp
  have e3: "detectImageIntent ''/img sunset''" by code_simp
  from general e1 e2 e3 show ?thesis by blast
qed

theorem detectImageIntent_classifies_witness:
  "detectImageIntent ''Please DRAW a cat''
   \<and> toLowerCase ''Please DRAW a cat'' = ''please '' @ ''draw'' @ '' a cat''
   \<and> detectImageIntent ''/IMG: sunset''
   \<and> toLowerCase ''/IMG: sunset'' = ''/img'' @ '': sunset''"
proof -
  have a: "toLowerCase ''Please DRAW a cat'' = ''please '' @ ''draw'' @ '' a cat''" by code_simp
  have b: "toLowerCase ''/IMG: sunset'' = ''/img'' @ '': sunset''" by code_simp
  have c: "\<not> is_word_char (hd '': sunset'')" by code_simp
  have "detectImageIntent ''Please DRAW a cat''"
    using detectImageIntent_classifies [of "''Please DRAW a cat''"] a by blast
  moreover have "detectImageIntent ''/IMG: sunset''"
    using detectImageIntent_classifies [of "''/IMG: sunset''"] b c by blast
  ultimately show ?thesis using a b by simp
qed

lemma find_leading_command:
  "find (alternative_matches True p) COMMAND_TOKENS = find (leading_command p) COMMAND_TOKENS"
  by (rule find_cong) (simp_all add: alternative_matches_iff command_tokens_shape)

lemma strip_command_leading:
  "strip_command p =
     (case find (leading_command p) COMMAND_TOKENS of
        None \<Rightarrow> p
      | Some tok \<Rightarrow> drop (length tok) p)"
  unfolding strip_command_def command_regex_def find_leading_command
  by (simp split: option.split)

lemma find_command_token:
  assumes "tok \<in> set COMMAND_TOKENS"
  shows "find (leading_command (tok @ rest)) COMMAND_TOKENS =
    (if rest = [] \<or> \<not> is_word_char (hd rest) then Some tok else None)"
proof -
  have lower: "toLowerCase_char (CHR ''/'') = CHR ''/''" "toLowerCase_char (CHR ''i'') = CHR ''i''"
    "toLowerCase_char (CHR ''m'') = CHR ''m''" "toLowerCase_char (CHR ''a'') = CHR ''a''"
    "toLowerCase_char (CHR ''g'') = CHR ''g''" "toLowerCase_char (CHR ''e'') = CHR ''e''"
    "toLowerCase_char (CHR ''p'') = CHR ''p''" "toLowerCase_char (CHR ''h'') = CHR ''h''"
    "toLowerCase_char (CHR ''o'') = CHR ''o''" "toLowerCase_char (CHR ''t'') = CHR ''t''"
    by (simp_all add: toLowerCase_char_def upper_letters_def lower_letters_def)
  from assms consider "tok = ''/image''" | "tok = ''/img''" | "tok = ''/photo''"
    by (auto simp: COMMAND_TOKENS_def)
  then show ?thesis
  proof cases
    case 1
    then show ?thesis
      by (simp add: COMMAND_TOKENS_def leading_command_def toLowerCase_def lower)
  next
    case 2
    then show ?thesis
      by (simp add: COMMAND_TOKENS_def leading_command_def toLowerCase_def lower)
  next
    case 3
    then show ?thesis
      by (simp add: COMMAND_TOKENS_def leading_command_def toLowerCase_def lower)
  qed
qed

lemma white_space_not_word: "is_white_space c \<Longrightarrow> \<not> is_word_char c"
  by (auto simp: is_white_space_def is_word_char_def)

lemma generateImageFlow_call:
  "snd (generateImageFlow w prompt st) = [GenerateContent (bodyPrompt prompt)]"
  by (simp add: generateImageFlow_def Let_def)

lemma handleSend_image_call:
  assumes "trim (input st) \<noteq> []" and "chatRef st" and "detectImageIntent (trim (input st))"
  shows "snd (handleSend w st) = [GenerateContent (bodyPrompt (trim (input st)))]"
  using assms by (simp add: handleSend_def Let_def generateImageFlow_call)

text \<open>
  Claim C6. The request the image flow issues carries the prompt as specified: the raw
  prompt without its leading command token, trimmed, and the raw prompt itself when
  nothing is left. That prompt is the flow's \<open>bodyPrompt\<close>. In particular, for a prompt
  that is one of the tokens \<^verbatim>\<open>/image\<close>, \<^verbatim>\<open>/img\<close>, \<^verbatim>\<open>/photo\<close> followed by a rest that does not
  go on with a word character (so for a rest that is empty or starts with white space),
  the flow sends the trimmed rest, or the prompt as it is when the trimmed rest is empty;
  for a prompt without a leading command token it sends the trimmed prompt, or the prompt
  as it is when it trims to nothing. A submitted input that is classified as an image
  request leads to exactly that request, for the trimmed input. For \<^verbatim>\<open>/img sunset\<close> the
  flow sends \<^verbatim>\<open>sunset\<close>, for \<^verbatim>\<open>/image\<close> it sends \<^verbatim>\<open>/image\<close>.
\<close>

theorem generateImageFlow_sends_effective_prompt:
  "snd (generateImageFlow w prompt st) = [GenerateContent (bodyPrompt prompt)]
   \<and> snd (generateImageFlow w prompt st) = [GenerateContent (effective_prompt prompt)]
   \<and> bodyPrompt prompt = effective_prompt prompt
   \<and> (\<forall>tok \<in> {''/image'', ''/img'', ''/photo''}. \<forall>rest.
         (rest = [] \<or> \<not> is_word_char (hd rest)) \<longrightarrow>
         bodyPrompt (tok @ rest) = (if trim rest = [] then tok @ rest else trim rest)
         \<and> snd (generateImageFlow w (tok @ rest) st) =
             [GenerateContent (if trim rest = [] then tok @ rest else trim rest)])
   \<and> (\<forall>tok \<in> {''/image'', ''/img'', ''/photo''}. \<forall>rest.
         (rest = [] \<or> is_white_space (hd rest)) \<longrightarrow>
         snd (generateImageFlow w (tok @ rest) st) =
             [GenerateContent (if trim rest = [] then tok @ rest else trim rest)])
   \<and> ((\<forall>tok \<in> {''/image'', ''/img'', ''/photo''}. \<not> leading_command prompt tok) \<longrightarrow>
         bodyPrompt prompt = (if trim prompt = [] then prompt else trim prompt)
         \<and> snd (generateImageFlow w prompt st) =
             [GenerateContent (if trim prompt = [] then prompt else trim prompt)])
   \<and> (trim (input st) \<noteq> [] \<and> chatRef st \<and> detectImageIntent (trim (input st)) \<longrightarrow>
         snd (handleSend w st) = [GenerateContent (effective_prompt (trim (input st)))])
   \<and> bodyPrompt ''/img sunset'' = ''sunset''
   \<and> bodyPrompt ''/image'' = ''/image''
   \<and> snd (generateImageFlow w ''/img sunset'' st) = [GenerateContent ''sunset'']
   \<and> snd (generateImageFlow w ''/image'' st) = [GenerateContent ''/image'']"
proof -
  have eq: "bodyPrompt p = effective_prompt p" for p
    by (simp add: bodyPrompt_def effective_prompt_def strip_command_leading)
  have sent: "snd (generateImageFlow w p st) = [GenerateContent (bodyPrompt p)]" for p
    by (rule generateImageFlow_call)
  have toks: "set COMMAND_TOKENS = {''/image'', ''/img'', ''/photo''}"
    by (simp add: COMMAND_TOKENS_def)
  have stripped: "bodyPrompt (tok @ rest) = (if trim rest = [] then tok @ rest else trim rest)"
    if "tok \<in> {''/image'', ''/img'', ''/photo''}" and "rest = [] \<or> \<not> is_word_char (hd rest)"
    for tok rest
  proof -
    from that(1) have "tok \<in> set COMMAND_TOKENS" by (simp only: toks)
    from find_command_token [OF this, of rest] that(2)
    have "find (leading_command (tok @ rest)) COMMAND_TOKENS = Some tok" by simp
    then show ?thesis by (simp add: eq effective_prompt_def)
  qed
  have stripped_sent: "snd (generateImageFlow w (tok @ rest) st) =
      [GenerateContent (if trim rest = [] then tok @ rest else trim rest)]"
    if "tok \<in> {''/image'', ''/img'', ''/photo''}" and "rest = [] \<or> \<not> is_word_char (hd rest)"
    for tok rest
    using stripped [OF that] by (simp only: sent)
  have spaced_sent: "snd (generateImageFlow w (tok @ rest) st) =
      [GenerateContent (if trim rest = [] then tok @ rest else trim rest)]"
    if "tok \<in> {''/image'', ''/img'', ''/photo''}" and "rest = [] \<or> is_white_space (hd rest)"
    for tok rest
  proof -
    from that(2) have "rest = [] \<or> \<not> is_word_char (hd rest)"
      using white_space_not_word by blast
    with that(1) show ?thesis by (rule stripped_sent)
  qed
  have plain: "bodyPrompt prompt = (if trim prompt = [] then prompt else trim prompt)"
    if "\<forall>tok \<in> {''/image'', ''/img'', ''/photo''}. \<not> leading_command prompt tok"
  proof -
    from that have "find (leading_command prompt) COMMAND_TOKENS = None"
      by (auto simp: find_None_iff toks)
    then show ?thesis by (simp add: eq effective_prompt_def)
  qed
  have plain_sent: "snd (generateImageFlow w prompt st) =
      [GenerateContent (if trim prompt = [] then prompt else trim prompt)]"
    if "\<forall>tok \<in> {''/image'', ''/img'', ''/photo''}. \<not> leading_command prompt tok"
    using plain [OF that] by (simp only: sent)
  have submitted: "snd (handleSend w st) = [GenerateContent (effective_prompt (trim (input st)))]"
    if "trim (input st) \<noteq> [] \<and> chatRef st \<and> detectImageIntent (trim (input st))"
    using that handleSend_image_call [of st w] by (simp add: eq)
  have e1: "bodyPrompt ''/img sunset'' = ''sunset''" by code_simp
  have e2: "bodyPrompt ''/image'' = ''/image''" by code_simp
  have s1: "snd (generateImageFlow w ''/img sunset'' st) = [GenerateContent ''sunset'']"
    by (simp only: sent e1)
  have s2: "snd (generateImageFlow w ''/image'' st) = [GenerateContent ''/image'']"
    by (simp only: sent e2)
  have a: "snd (generateImageFlow w prompt st) = [GenerateContent (effective_prompt prompt)]"
    by (simp only: sent eq)
  have c4: "\<forall>tok \<in> {''/image'', ''/img'', ''/photo''}. \<forall>rest.
         (rest = [] \<or> \<not> is_word_char (hd rest)) \<longrightarrow>
         bodyPrompt (tok @ rest) = (if trim rest = [] then tok @ rest else trim rest)
         \<and> snd (generateImageFlow w (tok @ rest) st) =
             [GenerateContent (if trim rest = [] then tok @ rest else trim rest)]"
    using stripped stripped_sent by (intro ballI allI impI conjI)
  have c5: "\<forall>tok \<in> {''/image'', ''/img'', ''/photo''}. \<forall>rest.
         (rest = [] \<or> is_white_space (hd rest)) \<longrightarrow>
         snd (generateImageFlow w (tok @ rest) st) =
             [GenerateContent (if trim rest = [] then tok @ rest else trim rest)]"
    using spaced_sent by (intro ballI allI impI)
  have c6: "(\<forall>tok \<in> {''/image'', ''/img'', ''/photo''}. \<not> leading_command prompt tok) \<longrightarrow>
         bodyPrompt prompt = (if trim prompt = [] then prompt else trim prompt)
         \<and> snd (generateImageFlow w prompt st) =
             [GenerateContent (if trim prompt = [] then prompt else trim prompt)]"
    using plain plain_sent by (intro impI conjI)
  have c7: "trim (input st) \<noteq> [] \<and> chatRef st \<and> detectImageIntent (trim (input st)) \<longrightarrow>
         snd (handleSend w st) = [GenerateContent (effective_prompt (trim (input st)))]"
    using submitted by (intro impI)
  show ?thesis
    by (intro conjI) (fact sent a eq c4 c5 c6 c7 e1 e2 s1 s2)+
qed

theorem generateImageFlow_sends_effective_prompt_witness:
  "snd (generateImageFlow sample_world ''/Photo  of a red fox '' sample_app) =
      [GenerateContent ''of a red fox'']
   \<and> snd (generateImageFlow sample_world ''/imagery'' sample_app) = [GenerateContent ''/imagery'']
   \<and> snd (generateImageFlow sample_world (''/img'' @ '' sunset'') sample_app) =
      [GenerateContent ''sunset'']
   \<and> snd (handleSend sample_world (sample_app\<lparr>input := '' /img sunset ''\<rparr>)) =
      [GenerateContent ''sunset'']"
proof -
  let ?st = "sample_app\<lparr>input := '' /img sunset ''\<rparr>"
  have a: "effective_prompt ''/Photo  of a red fox '' = ''of a red fox''" by code_simp
  have b: "effective_prompt ''/imagery'' = ''/imagery''" by code_simp
  have m: "''/img'' \<in> {''/image'', ''/img'', ''/photo''}" by simp
  have c: "'' sunset'' = [] \<or> is_white_space (hd '' sunset'')"
    by (simp add: is_white_space_def)
  have d: "trim '' sunset'' = ''sunset''" by code_simp
  have t: "trim '' /img sunset '' = ''/img sunset''" by code_simp
  have i: "detectImageIntent ''/img sunset''" by code_simp
  have e: "effective_prompt ''/img sunset'' = ''sunset''" by code_simp
  have h: "trim (input ?st) \<noteq> [] \<and> chatRef ?st \<and> detectImageIntent (trim (input ?st))"
    by (simp add: t i sample_app_def App_def)
  note fox = generateImageFlow_sends_effective_prompt
      [of sample_world "''/Photo  of a red fox ''" sample_app]
  note imagery = generateImageFlow_sends_effective_prompt
      [of sample_world "''/imagery''" sample_app]
  note sent = generateImageFlow_sends_effective_prompt [of sample_world "''x''" ?st]
  have 1: "snd (generateImageFlow sample_world ''/Photo  of a red fox '' sample_app) =
      [GenerateContent ''of a red fox'']"
    using fox [THEN conjunct2, THEN conjunct1] by (simp only: a)
  have 2: "snd (generateImageFlow sample_world ''/imagery'' sample_app) =
      [GenerateContent ''/imagery'']"
    using imagery [THEN conjunct2, THEN conjunct1] by (simp only: b)
  have "snd (generateImageFlow sample_world (''/img'' @ '' sunset'') sample_app) =
      [GenerateContent (if trim '' sunset'' = [] then ''/img'' @ '' sunset'' else trim '' sunset'')]"
    by (rule imagery [THEN conjunct2, THEN conjunct2, THEN conjunct2, THEN conjunct2,
          THEN conjunct1, rule_format, OF m c])
  then have 3: "snd (generateImageFlow sample_world (''/img'' @ '' sunset'') sample_app) =
      [GenerateContent ''sunset'']"
    by (simp add: d)
  have "snd (handleSend sample_world ?st) = [GenerateContent (effective_prompt (trim (input ?st)))]"
    by (rule sent [THEN conjunct2, THEN conjunct2, THEN conjunct2, THEN conjunct2,
          THEN conjunct2, THEN conjunct2, THEN conjunct1, rule_format, OF h])
  then have 4: "snd (handleSend sample_world ?st) = [GenerateContent ''sunset'']"
    by (simp add: t e)
  show ?thesis
    by (intro conjI) (fact 1 2 3 4)+
qed

section \<open>The streamed reply\<close>

lemma updateById_last:
  assumes "aid \<notin> id_m ` set log0" and "id_m m = aid"
  shows "updateById aid t (log0 @ [m]) = log0 @ [m\<lparr>text_m := t\<rparr>]"
  using assms by (simp add: updateById_append updateById_absent) (simp add: updateById_def)

lemma stream_loop_fresh:
  assumes "aid \<notin> id_m ` set log0" and "id_m m = aid"
  shows "stream_loop aid frags acc (log0 @ [m]) =
    map (\<lambda>i. log0 @ [m\<lparr>text_m := acc @ concat (take (Suc i) frags)\<rparr>]) [0..<length frags]"
  using assms(2)
proof (induction frags arbitrary: acc m)
  case Nil
  then show ?case by simp
next
  case (Cons c cs)
  have id': "id_m (m\<lparr>text_m := acc @ c\<rparr>) = aid" using Cons.prems by simp
  have "stream_loop aid (c # cs) acc (log0 @ [m]) =
      (log0 @ [m\<lparr>text_m := acc @ c\<rparr>]) #
        stream_loop aid cs (acc @ c) (log0 @ [m\<lparr>text_m := acc @ c\<rparr>])"
    using updateById_last [OF assms(1) Cons.prems] by (simp add: Let_def)
  also have "stream_loop aid cs (acc @ c) (log0 @ [m\<lparr>text_m := acc @ c\<rparr>]) =
      map (\<lambda>i. log0 @ [m\<lparr>text_m := acc @ c @ concat (take (Suc i) cs)\<rparr>]) [0..<length cs]"
    using Cons.IH [OF id', of "acc @ c"] by simp
  finally show ?case
    by (simp add: map_upt_Suc del: upt_Suc)
qed

lemma last_stream_loop:
  assumes "aid \<notin> id_m ` set log0" and "id_m m = aid" and "text_m m = []"
  shows "last ((log0 @ [m]) # stream_loop aid frags [] (log0 @ [m])) =
    log0 @ [m\<lparr>text_m := concat frags\<rparr>]"
proof (cases "frags = []")
  case True
  with assms(3) show ?thesis by simp
next
  case False
  then have "length frags = Suc (length frags - 1)" by (cases frags) simp_all
  then have "[0..<length frags] = [0..<length frags - 1] @ [length frags - 1]"
    by (metis upt_Suc_append zero_le)
  then show ?thesis
    using False by (simp add: stream_loop_fresh [OF assms(1,2)] del: upt_Suc)
qed


lemma text_chat_messages:
  "messages (fst (text_chat w txt st)) = last (text_chat_logs w st)"
  by (simp add: text_chat_def text_chat_logs_def Let_def split: option.split)

lemma handleSend_text:
  assumes "trim (input st) \<noteq> []" and "chatRef st" and "\<not> detectImageIntent (trim (input st))"
  shows "handleSend w st =
    text_chat w (trim (input st))
      (st\<lparr>lastError := None, messages := messages st @ [userMsg w (trim (input st))], input := []\<rparr>)"
  using assms by (simp add: handleSend_def Let_def)

lemma send_logs_text:
  assumes "trim (input st) \<noteq> []" and "chatRef st" and "\<not> detectImageIntent (trim (input st))"
  shows "send_logs w st =
    (messages st @ [userMsg w (trim (input st))]) #
    text_chat_logs w
      (st\<lparr>lastError := None, messages := messages st @ [userMsg w (trim (input st))], input := []\<rparr>)"
  using assms by (simp add: send_logs_def Let_def)

lemma text_chat_logs_fresh:
  assumes "replyId w \<notin> id_m ` set log0" and "messages st = log0"
  shows "text_chat_logs w st =
    map (\<lambda>n. log0 @ [(pending_reply (replyId w))\<lparr>text_m := concat (take n (fst (stream w)))\<rparr>])
      [0..<Suc (length (fst (stream w)))]
    @ (case snd (stream w) of
         None \<Rightarrow> []
       | Some err \<Rightarrow> [log0 @ [(pending_reply (replyId w))\<lparr>text_m := errorText err\<rparr>]])"
proof -
  let ?m = "pending_reply (replyId w)"
  define loop where "loop = stream_loop (replyId w) (fst (stream w)) [] (log0 @ [?m])"
  have idm: "id_m ?m = replyId w" and empty: "text_m ?m = []"
    by (simp_all add: pending_reply_def)
  have m0: "?m\<lparr>text_m := []\<rparr> = ?m" by (simp add: pending_reply_def)
  have loop: "loop =
      map (\<lambda>i. log0 @ [?m\<lparr>text_m := concat (take (Suc i) (fst (stream w)))\<rparr>])
        [0..<length (fst (stream w))]"
    unfolding loop_def
    using stream_loop_fresh [OF assms(1) idm, of "fst (stream w)" "[]"] by simp
  have lst: "last ((log0 @ [?m]) # loop) = log0 @ [?m\<lparr>text_m := concat (fst (stream w))\<rparr>]"
    unfolding loop_def by (rule last_stream_loop [OF assms(1) idm empty])
  have upd: "updateById (replyId w) t (log0 @ [?m\<lparr>text_m := x\<rparr>]) = log0 @ [?m\<lparr>text_m := t\<rparr>]"
    for t x
    using updateById_last [OF assms(1), of "?m\<lparr>text_m := x\<rparr>" t] idm by simp
  have head: "(log0 @ [?m]) # loop =
      map (\<lambda>n. log0 @ [?m\<lparr>text_m := concat (take n (fst (stream w)))\<rparr>])
        [0..<Suc (length (fst (stream w)))]"
    unfolding loop by (simp add: map_upt_Suc m0 del: upt_Suc)
  have "text_chat_logs w st =
      ((log0 @ [?m]) # loop) @
        (case snd (stream w) of
           None \<Rightarrow> []
         | Some err \<Rightarrow> [updateById (replyId w) (errorText err) (last ((log0 @ [?m]) # loop))])"
    by (simp add: text_chat_logs_def Let_def assms(2) loop_def cong: option.case_cong)
  also have "\<dots> = ((log0 @ [?m]) # loop) @
        (case snd (stream w) of
           None \<Rightarrow> []
         | Some err \<Rightarrow> [log0 @ [?m\<lparr>text_m := errorText err\<rparr>]])"
    unfolding lst by (simp add: upd split: option.split)
  finally show ?thesis unfolding head .
qed

text \<open>
  Claim C1. In a text send whose reply id is fresh (carried by no message of the log and
  different from the user message's id) and whose stream delivers the fragments \<open>frags\<close>
  and ends normally, the log takes these values in order: the old log with the user
  message; that log with the assistant message of the reply id and the empty text; and,
  after the \<open>n\<close>-th fragment, that log with the same assistant message carrying the
  concatenation of the first \<open>n\<close> fragments. Each of them holds exactly one message with
  the reply id. There is one update per fragment, and the final log carries the
  concatenation of all fragments. (For the fragments \<^verbatim>\<open>Hel\<close>, \<^verbatim>\<open>lo\<close>: two updates and the
  final text \<^verbatim>\<open>Hello\<close>.)
\<close>

theorem streamed_reply_grows:
  assumes "trim (input st) \<noteq> []" and "chatRef st" and "\<not> detectImageIntent (trim (input st))"
    and "replyId w \<notin> id_m ` set (messages st)" and "replyId w \<noteq> userId w"
    and "stream w = (frags, None)"
  shows "send_logs w st =
      (messages st @ [userMsg w (trim (input st))]) #
      map (\<lambda>n. messages st @ [userMsg w (trim (input st)),
                  \<lparr>id_m = replyId w, from_m = Assistant, text_m = concat (take n frags),
                   image_m = None, ts_m = None\<rparr>])
        [0..<Suc (length frags)]
    \<and> (\<forall>n \<le> length frags.
         filter (\<lambda>m. id_m m = replyId w) (send_logs w st ! Suc n) =
           [\<lparr>id_m = replyId w, from_m = Assistant, text_m = concat (take n frags),
             image_m = None, ts_m = None\<rparr>])
    \<and> length (send_logs w st) = length frags + 2
    \<and> messages (fst (handleSend w st)) = last (send_logs w st)
    \<and> messages (fst (handleSend w st)) =
        messages st @ [userMsg w (trim (input st)),
          \<lparr>id_m = replyId w, from_m = Assistant, text_m = concat frags,
           image_m = None, ts_m = None\<rparr>]
    \<and> lastError (fst (handleSend w st)) = None
    \<and> snd (handleSend w st) = [SendMessageStream (trim (input st))]"
proof -
  let ?txt = "trim (input st)"
  let ?log0 = "messages st @ [userMsg w ?txt]"
  let ?st3 = "st\<lparr>lastError := None, messages := ?log0, input := []\<rparr>"
  let ?reply = "\<lambda>t. \<lparr>id_m = replyId w, from_m = Assistant, text_m = t,
                   image_m = None, ts_m = None\<rparr>"
  have fresh: "replyId w \<notin> id_m ` set ?log0"
    using assms(4,5) by (simp add: userMsg_def)
  have pend: "(pending_reply (replyId w))\<lparr>text_m := t\<rparr> = ?reply t" for t
    by (simp add: pending_reply_def)
  have chat: "text_chat_logs w ?st3 =
      map (\<lambda>n. ?log0 @ [?reply (concat (take n frags))]) [0..<Suc (length frags)]"
    using text_chat_logs_fresh [OF fresh, of ?st3] assms(6) by (simp add: pend del: upt_Suc)
  have logs: "send_logs w st =
      ?log0 # map (\<lambda>n. messages st @ [userMsg w ?txt, ?reply (concat (take n frags))])
        [0..<Suc (length frags)]"
    using send_logs_text [OF assms(1-3), of w] chat by (simp del: upt_Suc)
  have nth: "send_logs w st ! Suc n = messages st @ [userMsg w ?txt, ?reply (concat (take n frags))]"
    if "n \<le> length frags" for n
    using that unfolding logs by (simp del: upt_Suc)
  have one: "filter (\<lambda>m. id_m m = replyId w) (send_logs w st ! Suc n) = [?reply (concat (take n frags))]"
    if "n \<le> length frags" for n
  proof -
    have "filter (\<lambda>m. id_m m = replyId w) (messages st) = []"
      using assms(4) by (force simp: filter_empty_conv)
    then show ?thesis
      using nth [OF that] assms(5) by (simp add: userMsg_def)
  qed
  have len: "length (send_logs w st) = length frags + 2"
    unfolding logs by simp
  have lastlog: "last (send_logs w st) =
      messages st @ [userMsg w ?txt, ?reply (concat frags)]"
    unfolding logs by (simp add: last_map del: upt_Suc)
  have final: "messages (fst (handleSend w st)) = last (send_logs w st)"
    using handleSend_text [OF assms(1-3), of w] send_logs_text [OF assms(1-3), of w]
    by (simp add: text_chat_messages text_chat_logs_def Let_def)
  have err: "lastError (fst (handleSend w st)) = None"
    using handleSend_text [OF assms(1-3), of w] assms(6) by (simp add: text_chat_def Let_def)
  have calls: "snd (handleSend w st) = [SendMessageStream ?txt]"
    using handleSend_text [OF assms(1-3), of w] by (simp add: text_chat_def Let_def)
  from logs one len final lastlog err calls show ?thesis by simp
qed


lemma sample_send_premises:
  "trim '' hello there '' = ''hello there''"
  "chatRef (sample_app\<lparr>input := '' hello there ''\<rparr>)"
  "messages (sample_app\<lparr>input := '' hello there ''\<rparr>) = [welcome_message ''w0'']"
  "\<not> detectImageIntent ''hello there''"
     apply (simp add: trim_def is_white_space_def)
    apply (simp add: sample_app_def App_def)
   apply (simp add: sample_app_def App_def loadHistory_def)
  apply code_simp
  done

theorem streamed_reply_grows_witness:
  "send_logs sample_world (sample_app\<lparr>input := '' hello there ''\<rparr>) =
     [[welcome_message ''w0'', userMsg sample_world ''hello there''],
      [welcome_message ''w0'', userMsg sample_world ''hello there'', pending_reply ''a1''],
      [welcome_message ''w0'', userMsg sample_world ''hello there'',
       (pending_reply ''a1'')\<lparr>text_m := ''Hel''\<rparr>],
      [welcome_message ''w0'', userMsg sample_world ''hello there'',
       (pending_reply ''a1'')\<lparr>text_m := ''Hello''\<rparr>]]
   \<and> messages (fst (handleSend sample_world (sample_app\<lparr>input := '' hello there ''\<rparr>))) =
      [welcome_message ''w0'', userMsg sample_world ''hello there'',
       (pending_reply ''a1'')\<lparr>text_m := ''Hello''\<rparr>]"
proof -
  let ?st = "sample_app\<lparr>input := '' hello there ''\<rparr>"
  have h1: "trim (input ?st) \<noteq> []" and h2: "chatRef ?st"
    and h3: "\<not> detectImageIntent (trim (input ?st))"
    using sample_send_premises by simp_all
  have h4: "replyId sample_world \<notin> id_m ` set (messages ?st)"
    and h5: "replyId sample_world \<noteq> userId sample_world"
    and h6: "stream sample_world = ([''Hel'', ''lo''], None)"
    by (simp_all add: sample_send_premises sample_world_def welcome_message_def)
  from streamed_reply_grows [OF h1 h2 h3 h4 h5 h6]
  show ?thesis
    by (simp add: sample_send_premises pending_reply_def sample_world_def)
qed

text \<open>
  Claim C3. In a text send whose reply id is fresh and whose stream fails with an error
  after delivering the fragments \<open>frags\<close> (none, if the call itself fails), the log held
  the partial concatenation just before the error was handled; afterwards the assistant
  message of the reply id carries the text \<^verbatim>\<open>FRIDAY couldn't reach the AI. \<close> followed by the
  error's description, whatever the fragments were, the messages before it are the old
  log and the user message, unchanged, and the last-error slot holds the description.
\<close>

theorem failed_stream_overwrites_reply:
  assumes "trim (input st) \<noteq> []" and "chatRef st" and "\<not> detectImageIntent (trim (input st))"
    and "replyId w \<notin> id_m ` set (messages st)" and "replyId w \<noteq> userId w"
    and "stream w = (frags, Some err)"
  shows "send_logs w st ! Suc (length frags) =
        messages st @ [userMsg w (trim (input st)),
          \<lparr>id_m = replyId w, from_m = Assistant, text_m = concat frags,
           image_m = None, ts_m = None\<rparr>]
    \<and> messages (fst (handleSend w st)) = last (send_logs w st)
    \<and> messages (fst (handleSend w st)) =
        messages st @ [userMsg w (trim (input st)),
          \<lparr>id_m = replyId w, from_m = Assistant,
           text_m = ''FRIDAY couldn'' @ [CHR 0x27] @ ''t reach the AI. '' @ error_detail err,
           image_m = None, ts_m = None\<rparr>]
    \<and> lastError (fst (handleSend w st)) = Some (error_detail err)
    \<and> isThinking (fst (handleSend w st)) = False"
proof -
  let ?txt = "trim (input st)"
  let ?log0 = "messages st @ [userMsg w ?txt]"
  let ?st3 = "st\<lparr>lastError := None, messages := ?log0, input := []\<rparr>"
  let ?reply = "\<lambda>t. \<lparr>id_m = replyId w, from_m = Assistant, text_m = t,
                   image_m = None, ts_m = None\<rparr>"
  have fresh: "replyId w \<notin> id_m ` set ?log0"
    using assms(4,5) by (simp add: userMsg_def)
  have pend: "(pending_reply (replyId w))\<lparr>text_m := t\<rparr> = ?reply t" for t
    by (simp add: pending_reply_def)
  have chat: "text_chat_logs w ?st3 =
      map (\<lambda>n. ?log0 @ [?reply (concat (take n frags))]) [0..<Suc (length frags)]
      @ [?log0 @ [?reply (errorText err)]]"
    using text_chat_logs_fresh [OF fresh, of ?st3] assms(6) by (simp add: pend del: upt_Suc)
  have logs: "send_logs w st =
      ?log0 # map (\<lambda>n. ?log0 @ [?reply (concat (take n frags))]) [0..<Suc (length frags)]
      @ [?log0 @ [?reply (errorText err)]]"
    using send_logs_text [OF assms(1-3), of w] chat by (simp del: upt_Suc)
  have partial: "send_logs w st ! Suc (length frags) =
      messages st @ [userMsg w ?txt, ?reply (concat frags)]"
    unfolding logs by (simp add: nth_append del: upt_Suc)
  have lastlog: "last (send_logs w st) = messages st @ [userMsg w ?txt, ?reply (errorText err)]"
    unfolding logs by (simp del: upt_Suc)
  have final: "messages (fst (handleSend w st)) = last (send_logs w st)"
    using handleSend_text [OF assms(1-3), of w] send_logs_text [OF assms(1-3), of w]
    by (simp add: text_chat_messages text_chat_logs_def Let_def)
  have err: "lastError (fst (handleSend w st)) = Some (error_detail err)"
    using handleSend_text [OF assms(1-3), of w] assms(6) by (simp add: text_chat_def Let_def)
  have thinking: "isThinking (fst (handleSend w st)) = False"
    using handleSend_text [OF assms(1-3), of w] by (simp add: text_chat_def Let_def)
  from partial final lastlog err thinking show ?thesis by (simp add: errorText_def)
qed

theorem failed_stream_overwrites_reply_witness:
  "messages (fst (handleSend
      (sample_world\<lparr>stream := ([''Hel''], Some (JsError ''TypeError'' ''Failed to fetch''))\<rparr>)
      (sample_app\<lparr>input := '' hello there ''\<rparr>))) =
      [welcome_message ''w0'', userMsg sample_world ''hello there'',
       (pending_reply ''a1'')\<lparr>text_m :=
          ''FRIDAY couldn'' @ [CHR 0x27] @ ''t reach the AI. Failed to fetch''\<rparr>]
   \<and> lastError (fst (handleSend
      (sample_world\<lparr>stream := ([''Hel''], Some (JsError ''TypeError'' ''Failed to fetch''))\<rparr>)
      (sample_app\<lparr>input := '' hello there ''\<rparr>))) = Some ''Failed to fetch''"
proof -
  let ?st = "sample_app\<lparr>input := '' hello there ''\<rparr>"
  let ?w = "sample_world\<lparr>stream := ([''Hel''], Some (JsError ''TypeError'' ''Failed to fetch''))\<rparr>"
  have h1: "trim (input ?st) \<noteq> []" and h2: "chatRef ?st"
    and h3: "\<not> detectImageIntent (trim (input ?st))"
    using sample_send_premises by simp_all
  have h4: "replyId ?w \<notin> id_m ` set (messages ?st)"
    and h5: "replyId ?w \<noteq> userId ?w"
    and h6: "stream ?w = ([''Hel''], Some (JsError ''TypeError'' ''Failed to fetch''))"
    by (simp_all add: sample_send_premises sample_world_def welcome_message_def)
  from failed_stream_overwrites_reply [OF h1 h2 h3 h4 h5 h6]
  have "messages (fst (handleSend ?w ?st)) =
        messages ?st @ [userMsg ?w (trim (input ?st)),
          \<lparr>id_m = replyId ?w, from_m = Assistant,
           text_m = ''FRIDAY couldn'' @ [CHR 0x27] @ ''t reach the AI. ''
                    @ error_detail (JsError ''TypeError'' ''Failed to fetch''),
           image_m = None, ts_m = None\<rparr>]"
    and "lastError (fst (handleSend ?w ?st)) =
        Some (error_detail (JsError ''TypeError'' ''Failed to fetch''))"
    by blast+
  then show ?thesis
    by (simp add: sample_send_premises pending_reply_def sample_world_def userMsg_def
        error_detail_def)
qed

section \<open>The outcomes of the image flow\<close>

lemma in_flight_progress: "in_flight ps st = st\<lparr>progress := last (progress st # ps)\<rparr>"
  unfolding in_flight_def
proof (induction ps arbitrary: st)
  case Nil
  then show ?case by simp
next
  case (Cons p ps)
  show ?case by (simp add: Cons.IH)
qed

lemma error_detail_no_image_data:
  "error_detail no_image_data =
     ''No image data was returned. The prompt may have been blocked for safety reasons.''"
  by (simp add: error_detail_def no_image_data_def)

lemma flow_rejected:
  assumes "generated w = Inl err"
  shows "fst (generateImageFlow w prompt st) =
    st\<lparr>isGenerating := False, lastError := Some (error_detail err),
       progress := last (6 # ticks w),
       intervals := filter (\<lambda>t. t \<noteq> timer w) (intervals st),
       messages := messages st @
         [\<lparr>id_m = replyId w, from_m = Assistant, text_m = ''Image generation failed.'',
           image_m = None, ts_m = None\<rparr>],
       timeouts := timeouts st @ [900]\<rparr>"
  using assms
  by (simp add: generateImageFlow_def image_requested_def fakeProgress_def in_flight_progress
      image_failed_def clearInterval_def Let_def)

lemma flow_refused:
  assumes "generated w = Inr resp" and "inline_of resp = None"
  shows "fst (generateImageFlow w prompt st) =
    st\<lparr>isGenerating := False, lastError := Some (error_detail no_image_data),
       progress := 80,
       intervals := filter (\<lambda>t. t \<noteq> timer w) (intervals st),
       messages := messages st @
         [\<lparr>id_m = replyId w, from_m = Assistant, text_m = ''Image generation failed.'',
           image_m = None, ts_m = None\<rparr>],
       timeouts := timeouts st @ [900]\<rparr>"
  using assms
  by (simp add: generateImageFlow_def image_requested_def fakeProgress_def in_flight_progress
      image_received_def image_failed_def clearInterval_def Let_def)

lemma flow_delivered:
  assumes "generated w = Inr resp" and "inline_of resp = Some d"
  shows "fst (generateImageFlow w prompt st) =
    st\<lparr>isGenerating := False, lastError := None,
       progress := 100,
       intervals := filter (\<lambda>t. t \<noteq> timer w) (intervals st),
       messages := messages st @
         [\<lparr>id_m = replyId w, from_m = Assistant,
           text_m = ''Generated image: '' @ [CHR 0x22] @ bodyPrompt prompt @ [CHR 0x22],
           image_m = Some (''data:'' @ mimeType d @ '';base64,'' @ data d),
           ts_m = Some (replyTs w)\<rparr>],
       timeouts := timeouts st @ [900]\<rparr>"
  using assms
  by (simp add: generateImageFlow_def image_requested_def fakeProgress_def in_flight_progress
      image_received_def clearInterval_def Let_def)

text \<open>
  Claim C2. When the image request is answered by a response without inline data, the
  flow appends exactly one assistant message with the text \<^verbatim>\<open>Image generation failed.\<close> and
  no image, and sets the last-error slot to the non-empty message of the error it throws
  itself. That is what it does when the request is rejected: the log is the same for
  every rejection, the last-error slot then holds the description of the rejection, and
  against a rejection with the flow's own error the two runs issue the same request and
  end in states that differ in the progress value only, which the pending timeout resets.
\<close>

theorem refusal_is_failure:
  assumes "generated w = Inr resp" and "inline_of resp = None"
  shows "messages (fst (generateImageFlow w prompt st)) =
      messages st @ [\<lparr>id_m = replyId w, from_m = Assistant,
        text_m = ''Image generation failed.'', image_m = None, ts_m = None\<rparr>]
    \<and> lastError (fst (generateImageFlow w prompt st)) =
        Some ''No image data was returned. The prompt may have been blocked for safety reasons.''
    \<and> isGenerating (fst (generateImageFlow w prompt st)) = False
    \<and> (\<forall>err. messages (fst (generateImageFlow (w\<lparr>generated := Inl err\<rparr>) prompt st)) =
              messages (fst (generateImageFlow w prompt st))
          \<and> lastError (fst (generateImageFlow (w\<lparr>generated := Inl err\<rparr>) prompt st)) =
              Some (error_detail err))
    \<and> progress_timeout (fst (generateImageFlow w prompt st)) =
        progress_timeout (fst (generateImageFlow (w\<lparr>generated := Inl no_image_data\<rparr>) prompt st))
    \<and> snd (generateImageFlow w prompt st) =
        snd (generateImageFlow (w\<lparr>generated := Inl no_image_data\<rparr>) prompt st)"
proof -
  have rej: "generated (w\<lparr>generated := Inl err\<rparr>) = Inl err" for err by simp
  note refused = flow_refused [OF assms, of prompt st]
  note rejected = flow_rejected [OF rej, of _ prompt st]
  have a: "messages (fst (generateImageFlow w prompt st)) =
      messages st @ [\<lparr>id_m = replyId w, from_m = Assistant,
        text_m = ''Image generation failed.'', image_m = None, ts_m = None\<rparr>]"
    by (simp add: refused)
  have b: "lastError (fst (generateImageFlow w prompt st)) =
        Some ''No image data was returned. The prompt may have been blocked for safety reasons.''"
    by (simp add: refused error_detail_no_image_data)
  have c: "isGenerating (fst (generateImageFlow w prompt st)) = False"
    by (simp add: refused)
  have d: "messages (fst (generateImageFlow (w\<lparr>generated := Inl err\<rparr>) prompt st)) =
              messages (fst (generateImageFlow w prompt st))
          \<and> lastError (fst (generateImageFlow (w\<lparr>generated := Inl err\<rparr>) prompt st)) =
              Some (error_detail err)" for err
    by (simp add: refused rejected)
  have e: "progress_timeout (fst (generateImageFlow w prompt st)) =
        progress_timeout (fst (generateImageFlow (w\<lparr>generated := Inl no_image_data\<rparr>) prompt st))"
    by (simp add: refused rejected progress_timeout_def)
  have f: "snd (generateImageFlow w prompt st) =
        snd (generateImageFlow (w\<lparr>generated := Inl no_image_data\<rparr>) prompt st)"
    by (simp add: generateImageFlow_def Let_def)
  from a b c d e f show ?thesis by blast
qed

theorem refusal_is_failure_witness:
  "generated sample_world = Inr \<lparr>candidates = None\<rparr>
   \<and> inline_of \<lparr>candidates = None\<rparr> = None
   \<and> messages (fst (generateImageFlow sample_world ''/img sunset'' sample_app)) =
      [welcome_message ''w0'',
       \<lparr>id_m = ''a1'', from_m = Assistant, text_m = ''Image generation failed.'',
        image_m = None, ts_m = None\<rparr>]
   \<and> lastError (fst (generateImageFlow sample_world ''/img sunset'' sample_app)) =
      Some ''No image data was returned. The prompt may have been blocked for safety reasons.''"
proof -
  have h1: "generated sample_world = Inr \<lparr>candidates = None\<rparr>"
    by (simp add: sample_world_def)
  have h2: "inline_of \<lparr>candidates = None\<rparr> = None"
    by (simp add: inline_of_def first_part_def)
  from refusal_is_failure [OF h1 h2, of "''/img sunset''" sample_app]
  have "messages (fst (generateImageFlow sample_world ''/img sunset'' sample_app)) =
      messages sample_app @ [\<lparr>id_m = replyId sample_world, from_m = Assistant,
        text_m = ''Image generation failed.'', image_m = None, ts_m = None\<rparr>]"
    and "lastError (fst (generateImageFlow sample_world ''/img sunset'' sample_app)) =
        Some ''No image data was returned. The prompt may have been blocked for safety reasons.''"
    by blast+
  with h1 h2 show ?thesis
    by (simp add: sample_app_def App_def loadHistory_def sample_world_def)
qed

text \<open>
  Claim C8. The interval timer that the flow starts runs while the request is in
  flight, and when the flow returns, whatever the outcome of the request (a rejection, a
  response without inline data, a response with an image), its handle is not among the
  running timers: the running timers are those that ran before the flow, without that
  handle.
\<close>

theorem progress_timer_cancelled:
  "timer w \<in> set (intervals (in_flight (ticks w) (image_requested w st)))
   \<and> intervals (fst (generateImageFlow w prompt st)) = filter (\<lambda>t. t \<noteq> timer w) (intervals st)
   \<and> timer w \<notin> set (intervals (fst (generateImageFlow w prompt st)))"
proof -
  have started: "timer w \<in> set (intervals (in_flight (ticks w) (image_requested w st)))"
    by (simp add: in_flight_progress image_requested_def fakeProgress_def Let_def)
  have stopped: "intervals (fst (generateImageFlow w prompt st)) =
      filter (\<lambda>t. t \<noteq> timer w) (intervals st)"
  proof (cases "generated w")
    case (Inl err)
    then show ?thesis by (simp add: flow_rejected)
  next
    case (Inr resp)
    then show ?thesis
      by (cases "inline_of resp") (simp_all add: flow_refused flow_delivered)
  qed
  from started stopped show ?thesis by simp
qed

theorem progress_timer_cancelled_witness:
  "intervals (fst (generateImageFlow sample_world ''/img sunset'' (sample_app\<lparr>intervals := [3]\<rparr>))) = [3]
   \<and> intervals (fst (generateImageFlow
        (sample_world\<lparr>generated := Inl (JsError ''TypeError'' ''Failed to fetch'')\<rparr>)
        ''/img sunset'' (sample_app\<lparr>intervals := [3]\<rparr>))) = [3]
   \<and> intervals (fst (generateImageFlow
        (sample_world\<lparr>generated := Inr \<lparr>candidates = Some [\<lparr>content = Some \<lparr>parts = Some
            [\<lparr>inlineData = Some \<lparr>mimeType = ''image/png'', data = ''AAAA''\<rparr>\<rparr>]\<rparr>\<rparr>]\<rparr>\<rparr>)
        ''/img sunset'' (sample_app\<lparr>intervals := [3]\<rparr>))) = [3]"
  using progress_timer_cancelled [of sample_world "sample_app\<lparr>intervals := [3]\<rparr>" "''/img sunset''"]
    progress_timer_cancelled [of "sample_world\<lparr>generated := Inl (JsError ''TypeError'' ''Failed to fetch'')\<rparr>"
      "sample_app\<lparr>intervals := [3]\<rparr>" "''/img sunset''"]
    progress_timer_cancelled [of "sample_world\<lparr>generated := Inr \<lparr>candidates = Some [\<lparr>content = Some \<lparr>parts = Some
            [\<lparr>inlineData = Some \<lparr>mimeType = ''image/png'', data = ''AAAA''\<rparr>\<rparr>]\<rparr>\<rparr>]\<rparr>\<rparr>"
      "sample_app\<lparr>intervals := [3]\<rparr>" "''/img sunset''"]
  by (simp add: sample_world_def)

section \<open>Loading the history and the log invariant\<close>

lemma parse_empty_array_samples:
  "parse_empty_array [] = None"
  "parse_empty_array ''[]'' = Some []"
  "parse_empty_array ''{oops'' = None"
  by (simp_all add: parse_empty_array_def is_json_space_def)

text \<open>
  Claim C9. With a parser that, as \<^verbatim>\<open>JSON.parse\<close> does, rejects the empty text and reads
  \<^verbatim>\<open>[]\<close> as the empty array: \<open>loadHistory\<close> returns the single welcome message when
  nothing is stored and when the stored text is rejected by the parser; whenever the
  parser accepts the stored text, its value is returned as the log, as it is. So for the
  stored text \<^verbatim>\<open>[]\<close> the log that \<open>loadHistory\<close> returns is empty.
\<close>

theorem loadHistory_trusts_parse:
  assumes "parse [] = None" and "parse ''[]'' = Some []"
  shows "(stored = None \<longrightarrow> loadHistory parse gid stored = [welcome_message gid])
    \<and> (\<forall>r. stored = Some r \<and> parse r = None \<longrightarrow>
          loadHistory parse gid stored = [welcome_message gid])
    \<and> (\<forall>r v. stored = Some r \<and> parse r = Some v \<longrightarrow> loadHistory parse gid stored = v)
    \<and> loadHistory parse gid (Some ''[]'') = []"
proof -
  have absent: "stored = None \<longrightarrow> loadHistory parse gid stored = [welcome_message gid]"
    by (simp add: loadHistory_def)
  have unparseable: "loadHistory parse gid stored = [welcome_message gid]"
    if "stored = Some r \<and> parse r = None" for r
    using that by (simp add: loadHistory_def)
  have parsed: "loadHistory parse gid stored = v"
    if "stored = Some r \<and> parse r = Some v" for r v
  proof -
    from that assms(1) have "r \<noteq> []" by auto
    with that show ?thesis by (simp add: loadHistory_def)
  qed
  have empty: "loadHistory parse gid (Some ''[]'') = []"
    using assms(2) by (simp add: loadHistory_def)
  from absent unparseable parsed empty show ?thesis by blast
qed

theorem loadHistory_trusts_parse_witness:
  "parse_empty_array [] = None
   \<and> parse_empty_array ''[]'' = Some []
   \<and> loadHistory parse_empty_array ''w0'' None = [welcome_message ''w0'']
   \<and> loadHistory parse_empty_array ''w0'' (Some ''{oops'') = [welcome_message ''w0'']
   \<and> loadHistory parse_empty_array ''w0'' (Some ''[]'') = []"
proof -
  note h = parse_empty_array_samples
  from loadHistory_trusts_parse [OF h(1) h(2), of None "''w0''"]
  have a: "loadHistory parse_empty_array ''w0'' None = [welcome_message ''w0'']"
    and c: "loadHistory parse_empty_array ''w0'' (Some ''[]'') = []"
    by blast+
  from loadHistory_trusts_parse [OF h(1) h(2), of "Some ''{oops''" "''w0''"] h(3)
  have b: "loadHistory parse_empty_array ''w0'' (Some ''{oops'') = [welcome_message ''w0'']"
    by blast
  from h a b c show ?thesis by simp
qed

lemma apply_op_nonempty: "messages st \<noteq> [] \<Longrightarrow> messages (apply_op st op) \<noteq> []"
  by (cases op) (simp_all add: updateById_def clearHistory_def)

lemma run_ops_nonempty: "messages st \<noteq> [] \<Longrightarrow> messages (run_ops st ops) \<noteq> []"
  unfolding run_ops_def
proof (induction ops arbitrary: st)
  case Nil
  then show ?case by simp
next
  case (Cons op ops)
  from Cons.prems have "messages (apply_op st op) \<noteq> []" by (rule apply_op_nonempty)
  then show ?case using Cons.IH by simp
qed

text \<open>
  Claim C4, as stated, fails: when the store holds the text \<^verbatim>\<open>[]\<close>, the log of the mounted
  component is empty, and it is still empty after an update by id.
\<close>

theorem log_empty_counterexample:
  "messages (App parse_empty_array ''w0'' (Some ''[]'')) = []
   \<and> messages (run_ops (App parse_empty_array ''w0'' (Some ''[]'')) [UpdateById ''w0'' ''hi'']) = []"
  by (simp add: App_def loadHistory_def parse_empty_array_samples run_ops_def updateById_def)

text \<open>
  Claim C4, amended. When the stored value is absent, or is rejected by the parser, or
  parses to a log that is not empty, the log of the mounted component is not empty after
  any sequence of appends, updates by id and resets. A reset, alone or at the end of
  any sequence of operations from any state, leaves a log of exactly one message, from the
  assistant, with the text \<^verbatim>\<open>FRIDAY online. Secure channel active.\<close>
\<close>

theorem log_never_empty:
  assumes "stored = None
    \<or> (\<exists>r. stored = Some r \<and> (parse r = None \<or> (\<exists>v. parse r = Some v \<and> v \<noteq> [])))"
  shows "messages (run_ops (App parse gid stored) ops) \<noteq> []
    \<and> messages (clearHistory True g st) =
        [\<lparr>id_m = g, from_m = Assistant, text_m = ''FRIDAY online. Secure channel active.'',
          image_m = None, ts_m = None\<rparr>]
    \<and> messages (run_ops st (ops' @ [Reset g])) =
        [\<lparr>id_m = g, from_m = Assistant, text_m = ''FRIDAY online. Secure channel active.'',
          image_m = None, ts_m = None\<rparr>]"
proof -
  have "loadHistory parse gid stored \<noteq> []"
    using assms by (auto simp: loadHistory_def split: if_splits)
  then have "messages (App parse gid stored) \<noteq> []" by (simp add: App_def)
  then have never: "messages (run_ops (App parse gid stored) ops) \<noteq> []"
    by (rule run_ops_nonempty)
  have reset: "messages (clearHistory True g st') =
        [\<lparr>id_m = g, from_m = Assistant, text_m = ''FRIDAY online. Secure channel active.'',
          image_m = None, ts_m = None\<rparr>]" for st'
    by (simp add: clearHistory_def welcome_message_def)
  have "run_ops st (ops' @ [Reset g]) = clearHistory True g (run_ops st ops')"
    by (simp add: run_ops_def)
  with never reset show ?thesis by simp
qed

theorem log_never_empty_witness:
  "messages (run_ops (App parse_empty_array ''w0'' None)
      [Append (pending_reply ''a1''), UpdateById ''a1'' ''Hi'']) =
      [welcome_message ''w0'', (pending_reply ''a1'')\<lparr>text_m := ''Hi''\<rparr>]
   \<and> messages (run_ops (App parse_empty_array ''w0'' (Some ''{oops''))
      [Append (pending_reply ''a1''), Reset ''w1'']) = [welcome_message ''w1'']"
proof -
  have h1: "None = None
    \<or> (\<exists>r. (None :: string option) = Some r \<and> (parse_empty_array r = None
          \<or> (\<exists>v. parse_empty_array r = Some v \<and> v \<noteq> [])))"
    by simp
  have h2: "Some ''{oops'' = None
    \<or> (\<exists>r. Some ''{oops'' = Some r \<and> (parse_empty_array r = None
          \<or> (\<exists>v. parse_empty_array r = Some v \<and> v \<noteq> [])))"
    by (simp add: parse_empty_array_samples)
  from log_never_empty [OF h1, where gid = "''w0''"
        and ops = "[Append (pending_reply ''a1''), UpdateById ''a1'' ''Hi'']"]
    log_never_empty [OF h2, where gid = "''w0''" and ops = "[]" and g = "''w1''"
        and st = "App parse_empty_array ''w0'' (Some ''{oops'')"
        and ops' = "[Append (pending_reply ''a1'')]"]
  show ?thesis
    by (simp add: App_def loadHistory_def parse_empty_array_samples run_ops_def updateById_def
        pending_reply_def welcome_message_def)
qed

end
